theory Spec2Isabelle
  imports Main "HOL-Library.Word" "HOL-Library.Multiset"
begin

unbundle bit_operations_syntax

section \<open>Machine types\<close>

text \<open>
  \<^verbatim>\<open>int\<close> is a 32-bit word read through \<open>sint\<close>, \<^verbatim>\<open>unsigned short\<close> a 16-bit word
  read through \<open>uint\<close>/\<open>unat\<close>, \<^verbatim>\<open>char\<close> a byte.
\<close>

type_synonym byte = "8 word"
type_synonym cint = "32 word"
type_synonym ushort = "16 word"

section \<open>The Branch record (common.hpp)\<close>

text \<open>
  \<^verbatim>\<open>struct Branch { Graph::GraphHistory history; int lb; unsigned short ub; int depth; }\<close>.
  The type of the first component is a parameter: common.hpp declares it as the graph's
  history, branch_n_bound_par.cpp reaches the graph of a branch through it (there under
  the name \<^verbatim>\<open>g\<close>).
\<close>

record 'h Branch =
  history :: 'h
  lb :: cint
  ub :: ushort
  depth :: cint

text \<open>Copy constructor: every member is initialised from the member of \<^verbatim>\<open>b\<close>.\<close>

definition Branch_copy :: "'h Branch \<Rightarrow> 'h Branch" where
  "Branch_copy b = \<lparr>history = history b, lb = lb b, ub = ub b, depth = depth b\<rparr>"

text \<open>
  Move constructor \<^verbatim>\<open>Branch(Branch&& b) : history(b.history), lb(b.lb), ub(b.ub), depth(b.depth)\<close>.
  Inside the constructor \<^verbatim>\<open>b.history\<close> is an lvalue, so the history is copy-constructed and
  the source is not written. The result is the pair of the constructed object and the
  source after the call.
\<close>

definition Branch_move :: "'h Branch \<Rightarrow> 'h Branch \<times> 'h Branch" where
  "Branch_move b = (\<lparr>history = history b, lb = lb b, ub = ub b, depth = depth b\<rparr>, b)"

text \<open>
  The assignment operators work on two objects that may be the same one
  (\<^verbatim>\<open>if (this != &other)\<close>), so they are modelled on a store from addresses to objects.
\<close>

type_synonym 'h store = "nat \<Rightarrow> 'h Branch"

definition copy_assign :: "nat \<Rightarrow> nat \<Rightarrow> 'h store \<Rightarrow> 'h store" where
  "copy_assign this other s =
     (if this \<noteq> other then
        (let s1 = s(this := (s this)\<lparr>history := history (s other)\<rparr>);
             s2 = s1(this := (s1 this)\<lparr>lb := lb (s1 other)\<rparr>);
             s3 = s2(this := (s2 this)\<lparr>ub := ub (s2 other)\<rparr>);
             s4 = s3(this := (s3 this)\<lparr>depth := depth (s3 other)\<rparr>)
         in s4)
      else s)"

definition move_assign :: "nat \<Rightarrow> nat \<Rightarrow> 'h store \<Rightarrow> 'h store" where
  "move_assign this other s =
     (if this \<noteq> other then
        (let s1 = s(this := (s this)\<lparr>history := history (s other)\<rparr>);
             s2 = s1(this := (s1 this)\<lparr>lb := lb (s1 other)\<rparr>);
             s3 = s2(this := (s2 this)\<lparr>ub := ub (s2 other)\<rparr>);
             s4 = s3(this := (s3 this)\<lparr>depth := depth (s3 other)\<rparr>)
         in s4)
      else s)"

text \<open>\<^verbatim>\<open>operator<\<close>: the order of the priority queue, by depth alone.\<close>

definition Branch_less :: "'h Branch \<Rightarrow> 'h Branch \<Rightarrow> bool" where
  "Branch_less a b \<longleftrightarrow> sint (depth a) < sint (depth b)"

section \<open>Serialization (common.hpp)\<close>

text \<open>
  \<^verbatim>\<open>memcpy\<close> of an \<^verbatim>\<open>int\<close> or an \<^verbatim>\<open>unsigned short\<close> copies its object representation:
  4 and 2 bytes, least significant byte first.
\<close>

definition bytes_of_int :: "cint \<Rightarrow> byte list" where
  "bytes_of_int w = [ucast w, ucast (drop_bit 8 w), ucast (drop_bit 16 w), ucast (drop_bit 24 w)]"

definition bytes_of_ushort :: "ushort \<Rightarrow> byte list" where
  "bytes_of_ushort w = [ucast w, ucast (drop_bit 8 w)]"

fun int_of_bytes :: "byte list \<Rightarrow> cint" where
  "int_of_bytes [] = 0"
| "int_of_bytes (b # bs) = ucast b OR push_bit 8 (int_of_bytes bs)"

fun ushort_of_bytes :: "byte list \<Rightarrow> ushort" where
  "ushort_of_bytes [] = 0"
| "ushort_of_bytes (b # bs) = ucast b OR push_bit 8 (ushort_of_bytes bs)"

text \<open>\<^verbatim>\<open>memcpy(buffer.data() + off, src, n)\<close> into a buffer that has room for it.\<close>

definition memcpy :: "byte list \<Rightarrow> nat \<Rightarrow> byte list \<Rightarrow> byte list" where
  "memcpy buffer off src = take off buffer @ src @ drop (off + length src) buffer"

text \<open>
  \<^verbatim>\<open>Branch::serialize\<close>. \<open>hSerialize\<close> is \<^verbatim>\<open>GraphHistory::Serialize\<close>, whose code is not
  part of these sources. The buffer is resized to \<^verbatim>\<open>sizeof(lb) + sizeof(ub) + sizeof(depth)\<close>
  plus the size of the history data (value-initialised), then filled by four copies at a
  moving pointer.
\<close>

definition serialize :: "('h \<Rightarrow> byte list) \<Rightarrow> 'h Branch \<Rightarrow> byte list" where
  "serialize hSerialize b =
     (let historyData = hSerialize (history b);
          historySize = length historyData;
          buffer0 = replicate (4 + 2 + 4 + historySize) (0::byte);
          buffer1 = memcpy buffer0 0 (bytes_of_int (lb b));
          buffer2 = memcpy buffer1 4 (bytes_of_ushort (ub b));
          buffer3 = memcpy buffer2 (4 + 2) (bytes_of_int (depth b));
          buffer4 = memcpy buffer3 (4 + 2 + 4) historyData
      in buffer4)"

text \<open>
  \<^verbatim>\<open>Branch::deserialize\<close>. \<open>hDeserialize\<close> is what \<^verbatim>\<open>GraphHistory::Deserialize\<close> makes of a
  default-constructed history. The three copies read 10 bytes and the history data starts
  at \<^verbatim>\<open>buffer.begin() + 10\<close>: on a shorter buffer the reads leave the buffer, which is the
  value \<open>None\<close> here.
\<close>

definition deserialize :: "(byte list \<Rightarrow> 'h) \<Rightarrow> byte list \<Rightarrow> 'h Branch option" where
  "deserialize hDeserialize buffer =
     (if length buffer < 4 + 2 + 4 then None
      else Some \<lparr>history = hDeserialize (drop (4 + 2 + 4) buffer),
                 lb = int_of_bytes (take 4 buffer),
                 ub = ushort_of_bytes (take 2 (drop 4 buffer)),
                 depth = int_of_bytes (take 4 (drop (4 + 2) buffer))\<rparr>)"

section \<open>Messages (branch_n_bound_par.cpp)\<close>

definition TAG_WORK_REQUEST :: nat where "TAG_WORK_REQUEST = 1"
definition TAG_WORK_RESPONSE :: nat where "TAG_WORK_RESPONSE = 2"
definition TAG_SOLUTION_FOUND :: nat where "TAG_SOLUTION_FOUND = 4"
definition TAG_IDLE :: nat where "TAG_IDLE = 5"
definition TAG_WORK_STEALING :: nat where "TAG_WORK_STEALING = 6"
definition TAG_TIMEOUT_SOLUTION :: nat where "TAG_TIMEOUT_SOLUTION = 7"

text \<open>A message posted by a send: destination rank, tag and what it carries.\<close>

datatype payload = PEmpty | PInt cint | PUShort ushort | PBytes "byte list"

type_synonym msg = "nat \<times> nat \<times> payload"

text \<open>
  \<^verbatim>\<open>sendBranch\<close>: the buffer's size as one \<^verbatim>\<open>MPI_INT\<close>, then the buffer, both under the
  same tag. The result is the two sends in the order they are posted.
\<close>

definition sendBranch :: "('h \<Rightarrow> byte list) \<Rightarrow> 'h Branch \<Rightarrow> nat \<Rightarrow> nat \<Rightarrow> msg list" where
  "sendBranch hSerialize b dst tg =
     (let buffer = serialize hSerialize b;
          size = (of_nat (length buffer) :: cint)
      in [(dst, tg, PInt size), (dst, tg, PBytes buffer)])"

section \<open>The priority queue\<close>

text \<open>
  Modelled from the spec: \<^verbatim>\<open>BranchQueue\<close> is declared in branch_n_bound_par.hpp, which is
  not among the sources; the spec has it as a max-heap of Branch keyed by depth. The
  queue is the list of its elements in the order they were pushed; \<open>queue_top\<close> is an
  element that no other element exceeds under \<^verbatim>\<open>operator<\<close> (the earliest pushed among
  equals), \<open>None\<close> on the empty queue where \<^verbatim>\<open>top()\<close> is undefined.
\<close>

fun deepest :: "'h Branch \<Rightarrow> 'h Branch list \<Rightarrow> 'h Branch" where
  "deepest b [] = b"
| "deepest b (c # cs) = deepest (if Branch_less b c then c else b) cs"

definition queue_top :: "'h Branch list \<Rightarrow> 'h Branch option" where
  "queue_top q = (case q of [] \<Rightarrow> None | b # bs \<Rightarrow> Some (deepest b bs))"

definition queue_pop :: "'h Branch list \<Rightarrow> 'h Branch list" where
  "queue_pop q = (case queue_top q of None \<Rightarrow> q | Some t \<Rightarrow> remove1 t q)"

definition queue_push :: "'h Branch \<Rightarrow> 'h Branch list \<Rightarrow> 'h Branch list" where
  "queue_push b q = q @ [b]"

section \<open>The graph and the witness coloring\<close>

text \<open>
  Modelled from the spec: the Graph class (graph.hpp) is not among the sources. A graph
  is what the accessors used by the solver return: \<^verbatim>\<open>GetVertices\<close>, \<^verbatim>\<open>GetFullColoring\<close>,
  \<^verbatim>\<open>GetMergedVertices\<close> (a table from a surviving vertex to the vertices merged into it,
  empty where the table has no entry) and \<^verbatim>\<open>GetNumVertices\<close>. \<^verbatim>\<open>Clone\<close> is the value itself.
\<close>

record Graph =
  Vertices :: "int list"
  FullColoring :: "ushort list"
  MergedVertices :: "(int \<times> int list) list"
  NumVertices :: nat

definition GetMergedVertices :: "Graph \<Rightarrow> int \<Rightarrow> int list" where
  "GetMergedVertices g v = (case map_of (MergedVertices g) v of None \<Rightarrow> [] | Some ms \<Rightarrow> ms)"

text \<open>
  What can go wrong in \<^verbatim>\<open>ColorInitialGraph\<close>: the branch has no graph (a
  default-constructed Branch), or an index leaves a vector.
\<close>

datatype error = NullGraph | OutOfRange

text \<open>The inner loop: \<^verbatim>\<open>full_coloring[merged] = full_coloring[vertex]\<close>.\<close>

fun color_merged :: "ushort list \<Rightarrow> int \<Rightarrow> int list \<Rightarrow> error + ushort list" where
  "color_merged full_coloring vertex [] = Inr full_coloring"
| "color_merged full_coloring vertex (merged # ms) =
     (if 0 \<le> merged \<and> nat merged < length full_coloring
         \<and> 0 \<le> vertex \<and> nat vertex < length full_coloring
      then color_merged (full_coloring[nat merged := full_coloring ! nat vertex]) vertex ms
      else Inl OutOfRange)"

text \<open>The outer loop over the surviving vertices of the branch's graph.\<close>

fun color_vertices :: "Graph \<Rightarrow> ushort list \<Rightarrow> int list \<Rightarrow> error + ushort list" where
  "color_vertices og full_coloring [] = Inr full_coloring"
| "color_vertices og full_coloring (vertex # vs) =
     (if 0 \<le> vertex \<and> nat vertex < length full_coloring
         \<and> nat vertex < length (FullColoring og)
      then (case color_merged (full_coloring[nat vertex := FullColoring og ! nat vertex])
                   vertex (GetMergedVertices og vertex) of
              Inl e \<Rightarrow> Inl e
            | Inr full_coloring' \<Rightarrow> color_vertices og full_coloring' vs)
      else Inl OutOfRange)"

definition ColorInitialGraph :: "Graph \<Rightarrow> Graph Branch \<Rightarrow> error + Graph" where
  "ColorInitialGraph graph_to_color optimal_branch =
     (case color_vertices (history optimal_branch)
             (replicate (NumVertices graph_to_color + 1) 0)
             (Vertices (history optimal_branch)) of
        Inl e \<Rightarrow> Inl e
      | Inr full_coloring \<Rightarrow> Inr (graph_to_color\<lparr>FullColoring := full_coloring\<rparr>))"

section \<open>The state of one process\<close>

text \<open>
  The members and shared variables of one process: the atomic \<^verbatim>\<open>_best_ub\<close>, \<^verbatim>\<open>_current_best\<close>
  (\<open>None\<close> while it is the default-constructed Branch), the queue, \<^verbatim>\<open>terminate_flag\<close>, the
  worker's \<^verbatim>\<open>first_iteration\<close>, the terminator's \<^verbatim>\<open>solution_found\<close>, \<^verbatim>\<open>timeout_signal\<close> and
  \<^verbatim>\<open>idle_status\<close>, the graph \<^verbatim>\<open>g\<close> that Solve colors in place, and the messages the
  process has sent so far. \<^verbatim>\<open>optimum_time\<close> and the log are left out.
\<close>

record proc =
  best_ub :: ushort
  current_best :: "Graph Branch option"
  queue :: "Graph Branch list"
  terminate_flag :: bool
  first_iteration :: bool
  solution_found :: cint
  timeout_signal :: cint
  idle_status :: "cint list"
  graph_to_color :: Graph
  sent :: "msg list"

definition UpdateCurrentBest :: "cint \<Rightarrow> cint \<Rightarrow> ushort \<Rightarrow> Graph \<Rightarrow> proc \<Rightarrow> proc" where
  "UpdateCurrentBest dp lower upper graph s =
     s\<lparr>current_best := Some \<lparr>history = graph, lb = lower, ub = upper, depth = dp\<rparr>\<rparr>"

section \<open>T0: the terminator on rank 0\<close>



text \<open>\<^verbatim>\<open>if (MPI_Wtime() - global_start_time >= timeout_seconds) timeout_signal = 1\<close>.\<close>

definition t0_check_timeout :: "bool \<Rightarrow> proc \<Rightarrow> proc" where
  "t0_check_timeout elapsed s = (if elapsed then s\<lparr>timeout_signal := 1\<rparr> else s)"

text \<open>
  The probe for \<^verbatim>\<open>TAG_SOLUTION_FOUND\<close>. \<open>None\<close>: nothing pending. \<open>Some (solution, b)\<close>:
  \<open>solution\<close> is what the variable \<^verbatim>\<open>solution\<close> holds when \<^verbatim>\<open>_best_ub.store(solution)\<close> reads
  it, right after the non-blocking receive is posted, and \<open>b\<close> is the Branch that
  \<^verbatim>\<open>recvBranch\<close> returns. The two stores to \<^verbatim>\<open>_best_ub\<close> are unconditional.
\<close>

definition t0_receive_solution :: "(ushort \<times> Graph Branch) option \<Rightarrow> proc \<Rightarrow> error + proc" where
  "t0_receive_solution m s =
     (case m of
        None \<Rightarrow> Inr s
      | Some (solution, optimal_branch) \<Rightarrow>
          (let s1 = s\<lparr>best_ub := solution\<rparr> in
           case ColorInitialGraph (graph_to_color s1) optimal_branch of
             Inl e \<Rightarrow> Inl e
           | Inr g \<Rightarrow> Inr (s1\<lparr>graph_to_color := g, best_ub := ub optimal_branch,
                              solution_found := 1\<rparr>)))"

text \<open>
  Draining \<^verbatim>\<open>TAG_IDLE\<close>: each pending message (source, status) overwrites
  \<^verbatim>\<open>idle_status[source]\<close> once its receive has completed, which the wait gives up on only
  when \<^verbatim>\<open>terminate_flag\<close> is set. Sources are ranks, below the length of the table.
\<close>

fun t0_drain_idle :: "(nat \<times> cint) list \<Rightarrow> proc \<Rightarrow> proc" where
  "t0_drain_idle [] s = s"
| "t0_drain_idle ((source, worker_idle_status) # ms) s =
     t0_drain_idle ms
       (if terminate_flag s then s
        else s\<lparr>idle_status := (idle_status s)[source := worker_idle_status]\<rparr>)"

text \<open>\<^verbatim>\<open>std::all_of(idle_status.begin(), idle_status.end(), status == 1)\<close>.\<close>

definition t0_check_all_idle :: "proc \<Rightarrow> proc" where
  "t0_check_all_idle s =
     (if list_all (\<lambda>status. status = 1) (idle_status s) then s\<lparr>solution_found := 1\<rparr> else s)"

text \<open>
  The collection loop at timeout, \<^verbatim>\<open>for (i = 1; i < p; i++)\<close>, over the ranks still to
  visit. \<open>recvd i\<close> is the Branch that \<^verbatim>\<open>recvBranch(i, TAG_TIMEOUT_SOLUTION)\<close> returns.
  \<open>timeout_guard\<close> is the test \<^verbatim>\<open>(!found || b.ub < best_branch.ub) && b.ub <= _best_ub.load()\<close>;
  \<^verbatim>\<open>found\<close> is never assigned in the source, and \<^verbatim>\<open>best_branch\<close> starts default-constructed
  (\<open>None\<close>). The middle component of the result lists the ranks a Branch was received from.
\<close>

definition timeout_guard :: "bool \<Rightarrow> Graph Branch option \<Rightarrow> Graph Branch \<Rightarrow> proc \<Rightarrow> bool" where
  "timeout_guard found best_branch b s \<longleftrightarrow>
     (\<not> found \<or> (case best_branch of None \<Rightarrow> False | Some bb \<Rightarrow> ub b < ub bb))
     \<and> ub b \<le> best_ub s"

fun t0_collect :: "(nat \<Rightarrow> Graph Branch) \<Rightarrow> nat list \<Rightarrow> bool \<Rightarrow> Graph Branch option \<Rightarrow> proc
                    \<Rightarrow> Graph Branch option \<times> nat list \<times> proc" where
  "t0_collect recvd [] found best_branch s = (best_branch, [], s)"
| "t0_collect recvd (i # ranks) found best_branch s =
     (let b = recvd i;
          r = (if timeout_guard found best_branch b s
               then t0_collect recvd ranks found (Some b) (s\<lparr>best_ub := ub b\<rparr>)
               else t0_collect recvd ranks found best_branch s)
      in (fst r, i # fst (snd r), snd (snd r)))"

definition t0_timeout :: "nat \<Rightarrow> (nat \<Rightarrow> Graph Branch) \<Rightarrow> proc \<Rightarrow> error + proc" where
  "t0_timeout p recvd s =
     (case t0_collect recvd [1..<p] False None s of
        (best_branch, ranks, s') \<Rightarrow>
          (case best_branch of
             None \<Rightarrow> Inl NullGraph
           | Some b \<Rightarrow>
               (case ColorInitialGraph (graph_to_color s') b of
                  Inl e \<Rightarrow> Inl e
                | Inr g \<Rightarrow> Inr (s'\<lparr>graph_to_color := g\<rparr>))))"

text \<open>
  One pass of the \<^verbatim>\<open>while (true)\<close> loop of \<^verbatim>\<open>thread_0_terminator\<close> with \<^verbatim>\<open>my_rank == 0\<close>
  (the same text in both solver classes). Rank 0 is the root of the two broadcasts, so
  they leave its flags as they are.
\<close>

definition thread_0_iteration ::
  "nat \<Rightarrow> bool \<Rightarrow> (ushort \<times> Graph Branch) option \<Rightarrow> (nat \<times> cint) list \<Rightarrow> (nat \<Rightarrow> Graph Branch)
     \<Rightarrow> proc \<Rightarrow> error + proc" where
  "thread_0_iteration p elapsed solution_msg idle_msgs recvd s =
     (case t0_receive_solution solution_msg (t0_check_timeout elapsed s) of
        Inl e \<Rightarrow> Inl e
      | Inr s1 \<Rightarrow>
          (let s2 = t0_check_all_idle (t0_drain_idle idle_msgs s1) in
           case (if timeout_signal s2 \<noteq> 0 then t0_timeout p recvd s2 else Inr s2) of
             Inl e \<Rightarrow> Inl e
           | Inr s3 \<Rightarrow>
               Inr (if solution_found s3 \<noteq> 0 \<or> timeout_signal s3 \<noteq> 0
                    then s3\<lparr>terminate_flag := True\<rparr> else s3)))"

section \<open>T1: the bound gatherer\<close>

text \<open>
  The all-gather puts the value each rank contributed at that rank's index; this rank
  contributes the \<^verbatim>\<open>local_best_ub\<close> it loaded.
\<close>

definition Iallgather :: "nat \<Rightarrow> ushort \<Rightarrow> ushort list \<Rightarrow> ushort list" where
  "Iallgather my_rank local_best_ub contributions = contributions[my_rank := local_best_ub]"

fun min_element :: "ushort list \<Rightarrow> ushort option" where
  "min_element [] = None"
| "min_element (x # xs) = (case min_element xs of None \<Rightarrow> Some x
                            | Some m \<Rightarrow> Some (if m < x then m else x))"

text \<open>
  The store that ends a completed gather: the minimum of the gathered values replaces
  \<^verbatim>\<open>_best_ub\<close>. \<open>local_best_ub\<close> is the value loaded before the collective started; other
  threads run between that load and this store.
\<close>

definition thread_1_store :: "nat \<Rightarrow> ushort \<Rightarrow> ushort list \<Rightarrow> proc \<Rightarrow> proc" where
  "thread_1_store my_rank local_best_ub contributions s =
     (let all_best_ub = Iallgather my_rank local_best_ub contributions
      in case min_element all_best_ub of None \<Rightarrow> s | Some m \<Rightarrow> s\<lparr>best_ub := m\<rparr>)"

text \<open>
  One pass of the gatherer's loop with no other thread in between: when the period has
  elapsed and the collective completes before termination, the store happens.
\<close>

definition thread_1_iteration :: "bool \<Rightarrow> bool \<Rightarrow> nat \<Rightarrow> ushort list \<Rightarrow> proc \<Rightarrow> proc" where
  "thread_1_iteration due completed my_rank contributions s =
     (if due \<and> \<not> terminate_flag s \<and> completed then
        (let local_best_ub = best_ub s
         in thread_1_store my_rank local_best_ub contributions s)
      else s)"

section \<open>T2: the employer\<close>

text \<open>
  One pass of the employer's loop; \<open>request\<close> is the source of a pending
  \<^verbatim>\<open>TAG_WORK_REQUEST\<close>, if the probe found one.
\<close>

definition thread_2_iteration :: "(Graph \<Rightarrow> byte list) \<Rightarrow> nat option \<Rightarrow> proc \<Rightarrow> proc" where
  "thread_2_iteration hSerialize request s =
     (case request of
        None \<Rightarrow> s
      | Some destination_rank \<Rightarrow>
          (if length (queue s) > 1 then
             (case queue_top (queue s) of
                None \<Rightarrow> s
              | Some branch \<Rightarrow>
                  s\<lparr>queue := queue_pop (queue s),
                    sent := sent s @ [(destination_rank, TAG_WORK_RESPONSE, PInt 1)]
                              @ sendBranch hSerialize branch destination_rank TAG_WORK_STEALING\<rparr>)
           else s\<lparr>sent := sent s @ [(destination_rank, TAG_WORK_RESPONSE, PInt 0)]\<rparr>))"

section \<open>The steal client\<close>

text \<open>
  \<^verbatim>\<open>int target_worker = my_rank; while (target_worker == my_rank) target_worker = rand() % p;\<close>
  \<open>rnd k\<close> is the value of the k-th call of \<^verbatim>\<open>rand()\<close>. The loop has no other exit, so it
  is a partial function: \<open>None\<close> is the loop that never ends.
\<close>

partial_function (option) select_target ::
  "(nat \<Rightarrow> nat) \<Rightarrow> nat \<Rightarrow> nat \<Rightarrow> nat \<Rightarrow> nat \<Rightarrow> nat option" where
  "select_target rnd k my_rank p target_worker =
     (if target_worker = my_rank then select_target rnd (Suc k) my_rank p (rnd k mod p)
      else Some target_worker)"

text \<open>
  The wait for the response: \<open>test k\<close> is the flag of the k-th \<^verbatim>\<open>MPI_Test\<close>, \<open>term k\<close> the
  k-th load of \<^verbatim>\<open>terminate_flag\<close>. \<open>Some True\<close>: the receive completed; \<open>Some False\<close>: it
  was cancelled on termination.
\<close>

partial_function (option) await_response ::
  "(nat \<Rightarrow> bool) \<Rightarrow> (nat \<Rightarrow> bool) \<Rightarrow> nat \<Rightarrow> bool option" where
  "await_response test term k =
     (if test k then Some True
      else if term k then Some False
      else await_response test term (Suc k))"

text \<open>
  What one call of \<^verbatim>\<open>request_work\<close> meets: the random numbers, the two streams of the
  wait, the integer the victim answers, and the Branch that \<^verbatim>\<open>recvBranch\<close> returns on
  \<^verbatim>\<open>TAG_WORK_STEALING\<close>.
\<close>

record steal_env =
  env_rand :: "nat \<Rightarrow> nat"
  env_test :: "nat \<Rightarrow> bool"
  env_term :: "nat \<Rightarrow> bool"
  env_response :: cint
  env_stolen :: "Graph Branch"

text \<open>\<^verbatim>\<open>request_work\<close>: \<open>None\<close> when the call does not return.\<close>

definition request_work :: "steal_env \<Rightarrow> nat \<Rightarrow> nat \<Rightarrow> proc \<Rightarrow> (bool \<times> proc) option" where
  "request_work env my_rank p s =
     (case select_target (env_rand env) 0 my_rank p my_rank of
        None \<Rightarrow> None
      | Some target_worker \<Rightarrow>
          (let s1 = s\<lparr>sent := sent s @ [(target_worker, TAG_WORK_REQUEST, PEmpty)]\<rparr> in
           case await_response (env_test env) (env_term env) 0 of
             None \<Rightarrow> None
           | Some completed \<Rightarrow>
               if \<not> completed then Some (False, s1)
               else if env_response env = 1
               then Some (True, s1\<lparr>queue := queue_push (env_stolen env) (queue s1)\<rparr>)
               else Some (False, s1)))"

section \<open>T3: the worker\<close>

text \<open>
  The collaborators the search consumes; their code is not among the sources.
  \<^verbatim>\<open>Color(g, ub)\<close> colors the graph in place and sets \<^verbatim>\<open>ub\<close>; \<^verbatim>\<open>AddEdge\<close> and \<^verbatim>\<open>MergeVertices\<close>
  change the graph they are called on; \<open>Serialize\<close> turns the graph component of a Branch
  into the bytes that follow the three numbers on the wire.
\<close>

record oracles =
  FindClique :: "Graph \<Rightarrow> cint"
  Color :: "Graph \<Rightarrow> Graph \<times> ushort"
  ChooseVertices :: "Graph \<Rightarrow> int \<times> int"
  AddEdge :: "Graph \<Rightarrow> int \<Rightarrow> int \<Rightarrow> Graph"
  MergeVertices :: "Graph \<Rightarrow> int \<Rightarrow> int \<Rightarrow> Graph"
  Serialize :: "Graph \<Rightarrow> byte list"

datatype ctl = Continue | Break

text \<open>The start of thread 3 of \<^verbatim>\<open>BranchNBoundPar::Solve\<close>, before its loop.\<close>

definition standard_init :: "oracles \<Rightarrow> proc \<Rightarrow> proc" where
  "standard_init orc s =
     (let g = graph_to_color s;
          lower = FindClique orc g;
          (g', upper) = Color orc g;
          s1 = s\<lparr>graph_to_color := g', best_ub := upper\<rparr>;
          s2 = UpdateCurrentBest 0 lower upper g' s1
      in s2\<lparr>queue := queue_push \<lparr>history = g', lb = lower, ub = upper, depth = 1\<rparr> (queue s2),
            first_iteration := True\<rparr>)"

text \<open>Taking work from the queue under the lock.\<close>

definition thread_3_pop :: "proc \<Rightarrow> Graph Branch option \<times> proc" where
  "thread_3_pop s =
     (case queue_top (queue s) of
        None \<Rightarrow> (None, s)
      | Some current \<Rightarrow> (Some current, s\<lparr>queue := queue_pop (queue s)\<rparr>))"

text \<open>
  \<^verbatim>\<open>_best_ub\<close> is an atomic that the other threads of the process store to while the worker
  runs, and the worker reads it by \<^verbatim>\<open>_best_ub.load()\<close> in a guard and writes it by a later
  \<^verbatim>\<open>_best_ub.store\<close>: two operations, with no lock around them. \<open>loads\<close> holds what the
  loads of one pass return, by place: the guard of the bottom prune (lines 562 and 1109),
  the dominance prune (578 and 1124), the guard on \<^verbatim>\<open>GetNumVertices()\<close> (598 and 1143) and
  \<^verbatim>\<open>previous_best_ub\<close> (651 and 1176). The state a pass works on is the state its writes
  land in.
\<close>

record loads =
  at_bottom :: ushort
  at_prune :: ushort
  at_no_pair :: ushort
  at_children :: ushort

text \<open>A pass that no store of another thread interrupts loads the same value everywhere.\<close>

definition uninterrupted :: "proc \<Rightarrow> loads" where
  "uninterrupted s = \<lparr>at_bottom = best_ub s, at_prune = best_ub s, at_no_pair = best_ub s,
                       at_children = best_ub s\<rparr>"

text \<open>
  The body of the loop of \<^verbatim>\<open>BranchNBoundPar::Solve\<close> (STANDARD) for a popped branch.
  \<^verbatim>\<open>lb1\<close> is the \<^verbatim>\<open>unsigned short\<close> declared at the top of Solve, so the clique bound of a
  merged child passes through 16 bits; \<^verbatim>\<open>first_iteration\<close> is cleared only at the end of
  the body.
\<close>

definition standard_process_at ::
  "oracles \<Rightarrow> int \<Rightarrow> ushort \<Rightarrow> loads \<Rightarrow> Graph Branch \<Rightarrow> proc \<Rightarrow> ctl \<times> proc" where
  "standard_process_at orc my_rank expected_chi ld current s =
     (let current_G = history current;
          current_lb = lb current;
          current_ub = ub current
      in
      if current_ub = expected_chi then
        (Break, s\<lparr>best_ub := current_ub,
                  sent := sent s @ [(0, TAG_SOLUTION_FOUND, PUShort current_ub)]
                            @ sendBranch (Serialize orc) current 0 TAG_SOLUTION_FOUND\<rparr>)
      else if sint current_lb = uint current_ub then
        (if first_iteration s then
           (Break, (UpdateCurrentBest (depth current) (lb current) (ub current) current_G
                      (s\<lparr>best_ub := current_ub\<rparr>))
                   \<lparr>sent := sent s @ [(0, TAG_SOLUTION_FOUND, PUShort current_ub)]\<rparr>)
         else if current_ub < at_bottom ld then
           (Continue, UpdateCurrentBest (depth current) (lb current) (ub current) current_G
                        (s\<lparr>best_ub := current_ub\<rparr>))
         else (Continue, s))
      else if uint (at_prune ld) \<le> sint current_lb then (Continue, s)
      else
        (case ChooseVertices orc current_G of
           (u, v) \<Rightarrow>
             if u = - 1 \<or> v = - 1 then
               (if int (NumVertices current_G) < uint (at_no_pair ld) then
                  (Continue, UpdateCurrentBest (depth current) (lb current) (ub current) current_G
                               (s\<lparr>best_ub := of_nat (NumVertices current_G)\<rparr>))
                else (Continue, s))
             else if sint (depth current) < my_rank + 1 then
               (let G_new = AddEdge orc current_G u v;
                    lb2 = FindClique orc G_new;
                    (G_new', ub2) = Color orc G_new
                in (Continue,
                    s\<lparr>queue := queue_push
                         \<lparr>history = G_new', lb = lb2, ub = ub2, depth = depth current + 1\<rparr> (queue s),
                      first_iteration := False\<rparr>))
             else if sint (depth current) = my_rank + 1 then
               (let G_merge = MergeVertices orc current_G u v;
                    lb1 = (ucast (FindClique orc G_merge) :: ushort);
                    (G_merge', ub1) = Color orc G_merge
                in (Continue,
                    s\<lparr>queue := queue_push
                         \<lparr>history = G_merge', lb = ucast lb1, ub = ub1, depth = depth current + 1\<rparr>
                         (queue s),
                      first_iteration := False\<rparr>))
             else
               (let G1 = MergeVertices orc current_G u v;
                    lb1 = (ucast (FindClique orc G1) :: ushort);
                    (G1', ub1) = Color orc G1;
                    G2 = AddEdge orc current_G u v;
                    lb2 = FindClique orc G2;
                    (G2', ub2) = Color orc G2;
                    previous_best_ub = at_children ld;
                    s1 = (if ub1 < previous_best_ub \<and> ub1 \<le> ub2 then
                            UpdateCurrentBest (depth current) (ucast lb1) ub1 G1' (s\<lparr>best_ub := ub1\<rparr>)
                          else if ub2 < previous_best_ub then
                            UpdateCurrentBest (depth current) lb2 ub2 G2' (s\<lparr>best_ub := ub2\<rparr>)
                          else s);
                    s2 = s1\<lparr>queue := queue_push
                              \<lparr>history = G1', lb = ucast lb1, ub = ub1, depth = depth current + 1\<rparr>
                              (queue s1)\<rparr>;
                    s3 = s2\<lparr>queue := queue_push
                              \<lparr>history = G2', lb = lb2, ub = ub2, depth = depth current + 1\<rparr>
                              (queue s2)\<rparr>
                in (Continue, s3\<lparr>first_iteration := False\<rparr>))))"

text \<open>The STANDARD pass when no other thread stores to \<^verbatim>\<open>_best_ub\<close> meanwhile.\<close>

definition standard_process :: "oracles \<Rightarrow> int \<Rightarrow> ushort \<Rightarrow> Graph Branch \<Rightarrow> proc \<Rightarrow> ctl \<times> proc" where
  "standard_process orc my_rank expected_chi current s =
     standard_process_at orc my_rank expected_chi (uninterrupted s) current s"

text \<open>
  The body of the loop of \<^verbatim>\<open>BalancedBranchNBoundPar::Solve\<close> (BALANCED) for a popped
  branch. Every path through it ends in \<^verbatim>\<open>continue\<close> or falls through to the next pass.
\<close>

definition balanced_process_at ::
  "oracles \<Rightarrow> ushort \<Rightarrow> loads \<Rightarrow> Graph Branch \<Rightarrow> proc \<Rightarrow> ctl \<times> proc" where
  "balanced_process_at orc expected_chi ld current s =
     (let current_G = history current;
          current_lb = lb current;
          current_ub = ub current
      in
      if current_ub = expected_chi then
        (Continue, s\<lparr>best_ub := current_ub,
                     sent := sent s @ [(0, TAG_SOLUTION_FOUND, PUShort current_ub)]
                               @ sendBranch (Serialize orc) current 0 TAG_SOLUTION_FOUND\<rparr>)
      else if sint current_lb = uint current_ub then
        (if current_ub < at_bottom ld then
           (Continue, UpdateCurrentBest (depth current) (lb current) (ub current) current_G
                        (s\<lparr>best_ub := current_ub\<rparr>))
         else (Continue, s))
      else if uint (at_prune ld) \<le> sint current_lb then (Continue, s)
      else
        (case ChooseVertices orc current_G of
           (u, v) \<Rightarrow>
             if u = - 1 \<or> v = - 1 then
               (if int (NumVertices current_G) < uint (at_no_pair ld) then
                  (Continue, UpdateCurrentBest (depth current) (lb current) (ub current) current_G
                               (s\<lparr>best_ub := of_nat (NumVertices current_G)\<rparr>))
                else (Continue, s))
             else
               (let G1 = MergeVertices orc current_G u v;
                    lb1 = FindClique orc G1;
                    (G1', ub1) = Color orc G1;
                    G2 = AddEdge orc current_G u v;
                    lb2 = FindClique orc G2;
                    (G2', ub2) = Color orc G2;
                    previous_best_ub = at_children ld;
                    s1 = (if ub1 < previous_best_ub \<and> ub1 \<le> ub2 then
                            UpdateCurrentBest (depth current) lb1 ub1 G1' (s\<lparr>best_ub := ub1\<rparr>)
                          else if ub2 < previous_best_ub then
                            UpdateCurrentBest (depth current) lb2 ub2 G2' (s\<lparr>best_ub := ub2\<rparr>)
                          else s);
                    s2 = s1\<lparr>queue := queue_push
                              \<lparr>history = G1', lb = lb1, ub = ub1, depth = depth current + 1\<rparr>
                              (queue s1)\<rparr>;
                    s3 = s2\<lparr>queue := queue_push
                              \<lparr>history = G2', lb = lb2, ub = ub2, depth = depth current + 1\<rparr>
                              (queue s2)\<rparr>
                in (Continue, s3))))"

text \<open>The BALANCED pass when no other thread stores to \<^verbatim>\<open>_best_ub\<close> meanwhile.\<close>

definition balanced_process :: "oracles \<Rightarrow> ushort \<Rightarrow> Graph Branch \<Rightarrow> proc \<Rightarrow> ctl \<times> proc" where
  "balanced_process orc expected_chi current s =
     balanced_process_at orc expected_chi (uninterrupted s) current s"

text \<open>
  The idle path, the same in both variants: report idle to rank 0, call \<^verbatim>\<open>request_work\<close>
  until it succeeds or \<^verbatim>\<open>terminate_flag\<close> is seen, then leave the search loop or report
  busy. \<open>flag k\<close> is the k-th load of \<^verbatim>\<open>terminate_flag\<close> on this path, \<open>envs k\<close> what the k-th
  call of \<^verbatim>\<open>request_work\<close> meets.
\<close>

partial_function (option) steal_loop ::
  "(nat \<Rightarrow> steal_env) \<Rightarrow> (nat \<Rightarrow> bool) \<Rightarrow> nat \<Rightarrow> nat \<Rightarrow> nat \<Rightarrow> proc \<Rightarrow> (nat \<times> proc) option" where
  "steal_loop envs flag k my_rank p s =
     (if flag k then Some (Suc k, s)
      else (case request_work (envs k) my_rank p s of
              None \<Rightarrow> None
            | Some (got, s') \<Rightarrow>
                if got then Some (Suc k, s') else steal_loop envs flag (Suc k) my_rank p s'))"

text \<open>
  The two reports to rank 0, sent by the worker of every rank, rank 0 included:
  \<^verbatim>\<open>idle_status = 1\<close> on finding the queue empty (lines 512 and 513), \<^verbatim>\<open>idle_status = 0\<close>
  once work has arrived (521 and 522).
\<close>

definition thread_3_idle_notify :: "proc \<Rightarrow> proc" where
  "thread_3_idle_notify s = s\<lparr>sent := sent s @ [(0, TAG_IDLE, PInt 1)]\<rparr>"

definition thread_3_busy_notify :: "proc \<Rightarrow> proc" where
  "thread_3_busy_notify s = s\<lparr>sent := sent s @ [(0, TAG_IDLE, PInt 0)]\<rparr>"

text \<open>What follows the first report: the steal loop, then \<^verbatim>\<open>break\<close> or the second report.\<close>

definition thread_3_steal ::
  "(nat \<Rightarrow> steal_env) \<Rightarrow> (nat \<Rightarrow> bool) \<Rightarrow> nat \<Rightarrow> nat \<Rightarrow> proc \<Rightarrow> (ctl \<times> proc) option" where
  "thread_3_steal envs flag my_rank p s1 =
     (case steal_loop envs flag 0 my_rank p s1 of
        None \<Rightarrow> None
      | Some (k, s2) \<Rightarrow>
          if flag k then Some (Break, s2)
          else Some (Continue, thread_3_busy_notify s2))"

definition thread_3_idle_path ::
  "(nat \<Rightarrow> steal_env) \<Rightarrow> (nat \<Rightarrow> bool) \<Rightarrow> nat \<Rightarrow> nat \<Rightarrow> proc \<Rightarrow> (ctl \<times> proc) option" where
  "thread_3_idle_path envs flag my_rank p s =
     thread_3_steal envs flag my_rank p (thread_3_idle_notify s)"



section \<open>Concrete inputs\<close>

text \<open>
  The path 1 - 2 - 3 as root graph; two colorings of the graph in which vertex 3 has
  been merged into vertex 1; and a coloring of the root itself with three colors.
\<close>

definition ex_root :: Graph where
  "ex_root = \<lparr>Vertices = [1, 2, 3], FullColoring = [0, 0, 0, 0], MergedVertices = [],
              NumVertices = 3\<rparr>"

definition ex_graph_a :: Graph where
  "ex_graph_a = \<lparr>Vertices = [1, 2], FullColoring = [0, 1, 2, 0], MergedVertices = [(1, [3])],
                 NumVertices = 2\<rparr>"

definition ex_graph_b :: Graph where
  "ex_graph_b = \<lparr>Vertices = [1, 2], FullColoring = [0, 2, 1, 0], MergedVertices = [(1, [3])],
                 NumVertices = 2\<rparr>"

definition ex_graph_c :: Graph where
  "ex_graph_c = \<lparr>Vertices = [1, 2, 3], FullColoring = [0, 1, 2, 3], MergedVertices = [],
                 NumVertices = 3\<rparr>"

definition ex_solution :: "Graph Branch" where
  "ex_solution = \<lparr>history = ex_graph_a, lb = 2, ub = 2, depth = 2\<rparr>"

definition ex_worker_best :: "Graph Branch" where
  "ex_worker_best = \<lparr>history = ex_graph_b, lb = 2, ub = 2, depth = 2\<rparr>"

definition ex_declared :: "Graph Branch" where
  "ex_declared = \<lparr>history = ex_graph_c, lb = 2, ub = 3, depth = 1\<rparr>"


definition ex_recvd3 :: "nat \<Rightarrow> Graph Branch" where
  "ex_recvd3 i = (if i = 1 then ex_declared else ex_worker_best)"

text \<open>Rank 0 of two processes, with a best bound of 2 already in place.\<close>

definition ex_coordinator :: proc where
  "ex_coordinator = \<lparr>best_ub = 2, current_best = None, queue = [], terminate_flag = False,
                      first_iteration = False, solution_found = 0, timeout_signal = 0,
                      idle_status = [0, 0], graph_to_color = ex_root, sent = []\<rparr>"

text \<open>
  A root graph of six vertices, and the graph left of it when vertex 5 has been merged
  into vertex 1 and vertex 6 into vertex 2: four vertices, colored with four colors.
  Two branches on that graph: one with lb = ub = 4, and one whose lb 3 is below its ub 4,
  as when the graph is complete and the clique search has found a triangle only.
\<close>

definition ex_wide_root :: Graph where
  "ex_wide_root = \<lparr>Vertices = [1, 2, 3, 4, 5, 6], FullColoring = [0, 0, 0, 0, 0, 0, 0],
                   MergedVertices = [], NumVertices = 6\<rparr>"

definition ex_graph_k4 :: Graph where
  "ex_graph_k4 = \<lparr>Vertices = [1, 2, 3, 4], FullColoring = [0, 1, 2, 3, 4, 0, 0],
                  MergedVertices = [(1, [5]), (2, [6])], NumVertices = 4\<rparr>"

definition ex_bottom :: "Graph Branch" where
  "ex_bottom = \<lparr>history = ex_graph_k4, lb = 4, ub = 4, depth = 3\<rparr>"

definition ex_complete :: "Graph Branch" where
  "ex_complete = \<lparr>history = ex_graph_k4, lb = 3, ub = 4, depth = 3\<rparr>"

text \<open>
  Rank 0 of two processes on that root, its worker having taken the last branch from its
  queue, with a best bound of 5; and loads that all returned that 5.
\<close>

definition ex_searching :: proc where
  "ex_searching = \<lparr>best_ub = 5, current_best = None, queue = [], terminate_flag = False,
                    first_iteration = False, solution_found = 0, timeout_signal = 0,
                    idle_status = [0, 0], graph_to_color = ex_wide_root, sent = []\<rparr>"

definition ex_loaded :: loads where
  "ex_loaded = \<lparr>at_bottom = 5, at_prune = 5, at_no_pair = 5, at_children = 5\<rparr>"

text \<open>A worker with two branches queued and a best bound of 5.\<close>

definition ex_worker :: proc where
  "ex_worker = \<lparr>best_ub = 5, current_best = None, queue = [ex_declared, ex_solution],
                 terminate_flag = False, first_iteration = False, solution_found = 0,
                 timeout_signal = 0, idle_status = [0, 0], graph_to_color = ex_root, sent = []\<rparr>"






text \<open>Collaborators that find no pair to branch on.\<close>

definition ex_oracles :: oracles where
  "ex_oracles = \<lparr>FindClique = (\<lambda>g. 2), Color = (\<lambda>g. (g, 3)), ChooseVertices = (\<lambda>g. (- 1, - 1)),
                  AddEdge = (\<lambda>g u v. g), MergeVertices = (\<lambda>g u v. g), Serialize = (\<lambda>g. [])\<rparr>"

section \<open>Properties of the Branch record\<close>

lemma int_of_bytes_of_int: "int_of_bytes (bytes_of_int w) = w"
  unfolding bytes_of_int_def
proof (rule bit_word_eqI)
  fix n assume n: "n < LENGTH(32)"
  have "n < 8 \<or> (8 \<le> n \<and> n < 16) \<or> (16 \<le> n \<and> n < 24) \<or> (24 \<le> n \<and> n < 32)"
    using n by auto
  then show "bit (int_of_bytes [ucast w, ucast (drop_bit 8 w), ucast (drop_bit 16 w),
                 ucast (drop_bit 24 w)]) n = bit w n"
    by (auto simp: bit_simps)
qed

lemma ushort_of_bytes_of_ushort: "ushort_of_bytes (bytes_of_ushort w) = w"
  unfolding bytes_of_ushort_def
proof (rule bit_word_eqI)
  fix n assume n: "n < LENGTH(16)"
  have "n < 8 \<or> (8 \<le> n \<and> n < 16)"
    using n by auto
  then show "bit (ushort_of_bytes [ucast w, ucast (drop_bit 8 w)]) n = bit w n"
    by (auto simp: bit_simps)
qed

lemma length_bytes_of_int: "length (bytes_of_int w) = 4"
  by (simp add: bytes_of_int_def)

lemma length_bytes_of_ushort: "length (bytes_of_ushort w) = 2"
  by (simp add: bytes_of_ushort_def)

lemma serialize_layout:
  "serialize hSerialize b =
     bytes_of_int (lb b) @ bytes_of_ushort (ub b) @ bytes_of_int (depth b) @ hSerialize (history b)"
  by (simp add: serialize_def memcpy_def Let_def length_bytes_of_int length_bytes_of_ushort)

text \<open>
  C5: for every Branch, deserializing the buffer that serialize produced gives back the
  Branch, equal in lb, ub, depth and history, provided the history's own serializer
  round-trips on that history; the buffer is the 4 bytes of lb, the 2 bytes of ub, the
  4 bytes of depth and then the serialized history, and the bytes read back as the same
  signed and unsigned values.
\<close>

theorem serialize_deserialize_identity:
  assumes "hDeserialize (hSerialize (history b)) = history b"
  shows "deserialize hDeserialize (serialize hSerialize b) = Some b
       \<and> length (serialize hSerialize b) = 4 + 2 + 4 + length (hSerialize (history b))
       \<and> take 4 (serialize hSerialize b) = bytes_of_int (lb b)
       \<and> take 2 (drop 4 (serialize hSerialize b)) = bytes_of_ushort (ub b)
       \<and> take 4 (drop 6 (serialize hSerialize b)) = bytes_of_int (depth b)
       \<and> drop 10 (serialize hSerialize b) = hSerialize (history b)
       \<and> sint (int_of_bytes (take 4 (serialize hSerialize b))) = sint (lb b)
       \<and> unat (ushort_of_bytes (take 2 (drop 4 (serialize hSerialize b)))) = unat (ub b)
       \<and> sint (int_of_bytes (take 4 (drop 6 (serialize hSerialize b)))) = sint (depth b)"
proof -
  let ?buf = "serialize hSerialize b"
  have len: "length ?buf = 4 + 2 + 4 + length (hSerialize (history b))"
    by (simp add: serialize_layout length_bytes_of_int length_bytes_of_ushort)
  have t1: "take 4 ?buf = bytes_of_int (lb b)"
    by (simp add: serialize_layout length_bytes_of_int)
  have t2: "take 2 (drop 4 ?buf) = bytes_of_ushort (ub b)"
    by (simp add: serialize_layout length_bytes_of_int length_bytes_of_ushort)
  have t3: "take 4 (drop 6 ?buf) = bytes_of_int (depth b)"
    by (simp add: serialize_layout length_bytes_of_int length_bytes_of_ushort)
  have t4: "drop 10 ?buf = hSerialize (history b)"
    by (simp add: serialize_layout length_bytes_of_int length_bytes_of_ushort)
  have "deserialize hDeserialize ?buf = Some b"
    using assms len t1 t2 t3 t4
    by (simp add: deserialize_def int_of_bytes_of_int ushort_of_bytes_of_ushort)
  then show ?thesis
    using len t1 t2 t3 t4 by (simp add: int_of_bytes_of_int ushort_of_bytes_of_ushort)
qed

theorem serialize_deserialize_identity_witness:
  "deserialize (\<lambda>bs. bs)
     (serialize (\<lambda>h. h) \<lparr>history = [1, 2 :: byte], lb = - 3, ub = 65535, depth = 7\<rparr>)
   = Some \<lparr>history = [1, 2], lb = - 3, ub = 65535, depth = 7\<rparr>"
  using serialize_deserialize_identity
    [of "\<lambda>bs. bs" "\<lambda>h. h" "\<lparr>history = [1, 2 :: byte], lb = - 3, ub = 65535, depth = 7\<rparr>"]
  by simp

text \<open>
  C10: move-constructing or move-assigning a Branch does what copying does: the
  destination gets the source's lb, ub, depth and history, and the source keeps its four
  fields.
\<close>

theorem Branch_move_is_copy:
  "Branch_move b = (Branch_copy b, b)
   \<and> Branch_copy b = b
   \<and> move_assign this other s = copy_assign this other s
   \<and> move_assign this other s this = s other
   \<and> move_assign this other s other = s other"
  by (simp add: Branch_move_def Branch_copy_def move_assign_def copy_assign_def Let_def)

section \<open>Auxiliary facts\<close>

lemma of_nat_le_ushort:
  fixes b :: ushort
  assumes "int n < uint b"
  shows "(of_nat n :: ushort) \<le> b" and "uint (of_nat n :: ushort) = int n"
proof -
  have "int n < int (unat b)" using assms by (simp only: uint_nat)
  then have nb: "n < unat b" by (simp only: of_nat_less_iff)
  then have u: "unat (of_nat n :: ushort) = n" by (intro le_unat_uoi[of n b]) simp
  show "(of_nat n :: ushort) \<le> b" using u nb by (simp add: word_le_nat_alt)
  show "uint (of_nat n :: ushort) = int n" using u by (simp only: uint_nat)
qed

lemma min_element_least:
  "min_element xs = Some m \<Longrightarrow> m \<in> set xs \<and> (\<forall>x\<in>set xs. m \<le> x)"
proof (induction xs arbitrary: m)
  case Nil then show ?case by simp
next
  case (Cons x xs)
  show ?case
  proof (cases "min_element xs")
    case None
    then have "xs = []" by (cases xs) (auto split: option.splits)
    with Cons.prems None show ?thesis by simp
  next
    case (Some m')
    from Cons.IH[OF Some] have m': "m' \<in> set xs" "\<forall>a\<in>set xs. m' \<le> a" by auto
    from Cons.prems Some have m: "m = (if m' < x then m' else x)" by simp
    show ?thesis
    proof (cases "m' < x")
      case True
      with m m' show ?thesis by auto
    next
      case False
      then have "x \<le> m'" by simp
      with m False m' show ?thesis by (auto intro: order_trans)
    qed
  qed
qed

lemma min_element_None: "min_element xs = None \<longleftrightarrow> xs = []"
  by (cases xs) (auto split: option.splits)

lemma thread_1_store_le_local:
  assumes "my_rank < length contributions"
  shows "best_ub (thread_1_store my_rank local_best_ub contributions (s\<lparr>best_ub := local_best_ub\<rparr>))
           \<le> local_best_ub"
    and "\<exists>m. best_ub (thread_1_store my_rank local_best_ub contributions s) = m
             \<and> m \<le> local_best_ub
             \<and> m \<in> set (contributions[my_rank := local_best_ub])
             \<and> (\<forall>x\<in>set (contributions[my_rank := local_best_ub]). m \<le> x)"
proof -
  let ?all = "contributions[my_rank := local_best_ub]"
  have mem: "local_best_ub \<in> set ?all" using assms by (rule set_update_memI)
  then have "?all \<noteq> []" by auto
  then obtain m where m: "min_element ?all = Some m"
    using min_element_None[of ?all] by (cases "min_element ?all") auto
  from min_element_least[OF m] have least: "m \<in> set ?all" "\<forall>x\<in>set ?all. m \<le> x" by auto
  with mem have le: "m \<le> local_best_ub" by blast
  show "best_ub (thread_1_store my_rank local_best_ub contributions (s\<lparr>best_ub := local_best_ub\<rparr>))
           \<le> local_best_ub"
    using m le by (simp add: thread_1_store_def Iallgather_def Let_def)
  show "\<exists>m. best_ub (thread_1_store my_rank local_best_ub contributions s) = m
             \<and> m \<le> local_best_ub
             \<and> m \<in> set (contributions[my_rank := local_best_ub])
             \<and> (\<forall>x\<in>set (contributions[my_rank := local_best_ub]). m \<le> x)"
    using m le least by (simp add: thread_1_store_def Iallgather_def Let_def)
qed

lemma thread_1_non_increasing:
  assumes "my_rank < length contributions"
  shows "best_ub (thread_1_iteration due completed my_rank contributions s) \<le> best_ub s"
proof (cases "due \<and> \<not> terminate_flag s \<and> completed")
  case True
  have "s\<lparr>best_ub := best_ub s\<rparr> = s" by simp
  with thread_1_store_le_local(1)[OF assms, of "best_ub s" s] True
  show ?thesis by (simp add: thread_1_iteration_def Let_def)
next
  case False
  then show ?thesis by (auto simp: thread_1_iteration_def)
qed

lemma standard_process_non_increasing:
  assumes "ub current \<noteq> expected_chi"
    and "\<not> (first_iteration s \<and> sint (lb current) = uint (ub current))"
  shows "best_ub (snd (standard_process orc my_rank expected_chi current s)) \<le> best_ub s"
  using assms
  by (auto simp: standard_process_def standard_process_at_def uninterrupted_def Let_def UpdateCurrentBest_def of_nat_le_ushort
      split: prod.splits if_splits)

lemma balanced_process_non_increasing:
  assumes "ub current \<noteq> expected_chi"
  shows "best_ub (snd (balanced_process orc expected_chi current s)) \<le> best_ub s"
  using assms
  by (auto simp: balanced_process_def balanced_process_at_def uninterrupted_def Let_def UpdateCurrentBest_def of_nat_le_ushort
      split: prod.splits if_splits)

lemma standard_complete_graph:
  assumes "ub current \<noteq> expected_chi"
    and "sint (lb current) \<noteq> uint (ub current)"
    and "sint (lb current) < uint (best_ub s)"
    and "ChooseVertices orc (history current) = (u, v)"
    and "u = - 1 \<or> v = - 1"
  shows "standard_process orc my_rank expected_chi current s =
          (Continue,
           if int (NumVertices (history current)) < uint (best_ub s)
           then s\<lparr>best_ub := of_nat (NumVertices (history current)),
                  current_best := Some current\<rparr>
           else s)"
  using assms
  by (auto simp: standard_process_def standard_process_at_def uninterrupted_def Let_def UpdateCurrentBest_def)

lemma balanced_complete_graph:
  assumes "ub current \<noteq> expected_chi"
    and "sint (lb current) \<noteq> uint (ub current)"
    and "sint (lb current) < uint (best_ub s)"
    and "ChooseVertices orc (history current) = (u, v)"
    and "u = - 1 \<or> v = - 1"
  shows "balanced_process orc expected_chi current s =
          (Continue,
           if int (NumVertices (history current)) < uint (best_ub s)
           then s\<lparr>best_ub := of_nat (NumVertices (history current)),
                  current_best := Some current\<rparr>
           else s)"
  using assms
  by (auto simp: balanced_process_def balanced_process_at_def uninterrupted_def Let_def UpdateCurrentBest_def)

lemma standard_short_circuit:
  "ub current = expected_chi \<Longrightarrow>
   standard_process orc my_rank expected_chi current s =
     (Break, s\<lparr>best_ub := ub current,
               sent := sent s @ [(0, TAG_SOLUTION_FOUND, PUShort (ub current)),
                                 (0, TAG_SOLUTION_FOUND,
                                    PInt (of_nat (length (serialize (Serialize orc) current)))),
                                 (0, TAG_SOLUTION_FOUND, PBytes (serialize (Serialize orc) current))]\<rparr>)"
  by (simp add: standard_process_def standard_process_at_def uninterrupted_def sendBranch_def Let_def)

lemma balanced_short_circuit:
  "ub current = expected_chi \<Longrightarrow>
   balanced_process orc expected_chi current s =
     (Continue, s\<lparr>best_ub := ub current,
               sent := sent s @ [(0, TAG_SOLUTION_FOUND, PUShort (ub current)),
                                 (0, TAG_SOLUTION_FOUND,
                                    PInt (of_nat (length (serialize (Serialize orc) current)))),
                                 (0, TAG_SOLUTION_FOUND, PBytes (serialize (Serialize orc) current))]\<rparr>)"
  by (simp add: balanced_process_def balanced_process_at_def uninterrupted_def sendBranch_def Let_def)

lemma deepest_mem: "deepest b cs \<in> set (b # cs)"
  by (induction cs arbitrary: b) auto

lemma deepest_depth_ge: "sint (depth b) \<le> sint (depth (deepest b cs))"
proof (induction cs arbitrary: b)
  case Nil show ?case by simp
next
  case (Cons c cs)
  show ?case
  proof (cases "Branch_less b c")
    case True
    then have "sint (depth b) \<le> sint (depth c)" by (simp add: Branch_less_def)
    also have "\<dots> \<le> sint (depth (deepest c cs))" by (rule Cons.IH)
    finally show ?thesis using True by simp
  next
    case False
    then show ?thesis using Cons.IH[of b] by simp
  qed
qed

lemma deepest_max: "x \<in> set (b # cs) \<Longrightarrow> sint (depth x) \<le> sint (depth (deepest b cs))"
proof (induction cs arbitrary: b)
  case Nil then show ?case by simp
next
  case (Cons c cs)
  show ?case
  proof (cases "x = b")
    case True
    then show ?thesis using deepest_depth_ge[of b "c # cs"] by simp
  next
    case False
    with Cons.prems have xin: "x \<in> set (c # cs)" by simp
    show ?thesis
    proof (cases "Branch_less b c")
      case True
      then show ?thesis using Cons.IH[of c] xin by simp
    next
      case False
      then have cb: "sint (depth c) \<le> sint (depth b)" by (simp add: Branch_less_def)
      show ?thesis
      proof (cases "x = c")
        case True
        then show ?thesis using cb deepest_depth_ge[of b cs] False \<open>\<not> Branch_less b c\<close> by simp
      next
        case False
        with xin have "x \<in> set (b # cs)" by simp
        then show ?thesis using Cons.IH[of b] \<open>\<not> Branch_less b c\<close> by simp
      qed
    qed
  qed
qed

lemma queue_top_Some:
  assumes "queue_top q = Some t"
  shows "t \<in> set q" and "\<forall>b\<in>set q. sint (depth b) \<le> sint (depth t)"
proof -
  from assms obtain b bs where q: "q = b # bs" and t: "t = deepest b bs"
    by (cases q) (auto simp: queue_top_def)
  show "t \<in> set q" using deepest_mem[of b bs] q t by simp
  show "\<forall>b\<in>set q. sint (depth b) \<le> sint (depth t)"
    using deepest_max[of _ b bs] q t by blast
qed

lemma queue_top_None: "queue_top q = None \<longleftrightarrow> q = []"
  by (cases q) (simp_all add: queue_top_def)

lemma queue_pop_mset:
  assumes "queue_top q = Some t"
  shows "mset q = add_mset t (mset (queue_pop q))"
proof -
  have "t \<in> set q" using queue_top_Some(1)[OF assms] .
  then show ?thesis using assms by (simp add: queue_pop_def)
qed

lemma employer_serve:
  "thread_2_iteration hSerialize (Some d) s =
     (case queue_top (queue s) of
        None \<Rightarrow> s\<lparr>sent := sent s @ [(d, TAG_WORK_RESPONSE, PInt 0)]\<rparr>
      | Some branch \<Rightarrow>
          if 1 < length (queue s)
          then s\<lparr>queue := queue_pop (queue s),
                 sent := sent s @ [(d, TAG_WORK_RESPONSE, PInt 1),
                           (d, TAG_WORK_STEALING, PInt (of_nat (length (serialize hSerialize branch)))),
                           (d, TAG_WORK_STEALING, PBytes (serialize hSerialize branch))]\<rparr>
          else s\<lparr>sent := sent s @ [(d, TAG_WORK_RESPONSE, PInt 0)]\<rparr>)"
  by (auto simp: thread_2_iteration_def sendBranch_def Let_def queue_top_None split: option.splits)

lemma t0_collect_ranks: "fst (snd (t0_collect recvd ranks found bb s)) = ranks"
  by (induction ranks arbitrary: bb s) (simp_all add: Let_def)

lemma t0_collect_non_increasing:
  "best_ub (snd (snd (t0_collect recvd ranks found bb s))) \<le> best_ub s"
proof (induction ranks arbitrary: bb s)
  case Nil show ?case by simp
next
  case (Cons i ranks)
  show ?case
  proof (cases "timeout_guard found bb (recvd i) s")
    case True
    then have "ub (recvd i) \<le> best_ub s" by (simp add: timeout_guard_def)
    moreover have "best_ub (snd (snd (t0_collect recvd ranks found (Some (recvd i))
                      (s\<lparr>best_ub := ub (recvd i)\<rparr>)))) \<le> ub (recvd i)"
      using Cons.IH[of "Some (recvd i)" "s\<lparr>best_ub := ub (recvd i)\<rparr>"] by simp
    ultimately show ?thesis using True by (simp add: Let_def)
  next
    case False
    then show ?thesis using Cons.IH[of bb s] by (simp add: Let_def)
  qed
qed

lemma t0_collect_frame:
  "graph_to_color (snd (snd (t0_collect recvd ranks found bb s))) = graph_to_color s
   \<and> solution_found (snd (snd (t0_collect recvd ranks found bb s))) = solution_found s
   \<and> timeout_signal (snd (snd (t0_collect recvd ranks found bb s))) = timeout_signal s
   \<and> terminate_flag (snd (snd (t0_collect recvd ranks found bb s))) = terminate_flag s
   \<and> idle_status (snd (snd (t0_collect recvd ranks found bb s))) = idle_status s
   \<and> queue (snd (snd (t0_collect recvd ranks found bb s))) = queue s
   \<and> current_best (snd (snd (t0_collect recvd ranks found bb s))) = current_best s
   \<and> first_iteration (snd (snd (t0_collect recvd ranks found bb s))) = first_iteration s
   \<and> sent (snd (snd (t0_collect recvd ranks found bb s))) = sent s"
  by (induction ranks arbitrary: bb s) (simp_all add: Let_def)

text \<open>The loop as the source runs it, with \<^verbatim>\<open>found\<close> false throughout.\<close>

lemma t0_collect_result:
  assumes "t0_collect recvd ranks False bb s = (r, rs, s')"
  shows "(\<forall>i\<in>set ranks. best_ub s' \<le> ub (recvd i))
       \<and> ((\<forall>i\<in>set ranks. \<not> ub (recvd i) \<le> best_ub s) \<longrightarrow> r = bb \<and> best_ub s' = best_ub s)
       \<and> ((\<exists>i\<in>set ranks. ub (recvd i) \<le> best_ub s) \<longrightarrow>
            (\<exists>i\<in>set ranks. r = Some (recvd i) \<and> best_ub s' = ub (recvd i)))"
  using assms
proof (induction ranks arbitrary: bb s r rs s')
  case Nil then show ?case by simp
next
  case (Cons i ranks)
  show ?case
  proof (cases "ub (recvd i) \<le> best_ub s")
    case True
    let ?s1 = "s\<lparr>best_ub := ub (recvd i)\<rparr>"
    obtain r1 rs1 s1' where c: "t0_collect recvd ranks False (Some (recvd i)) ?s1 = (r1, rs1, s1')"
      by (cases "t0_collect recvd ranks False (Some (recvd i)) ?s1") auto
    from Cons.prems True c have eq: "r = r1" "s' = s1'"
      by (simp_all add: timeout_guard_def Let_def)
    note IH = Cons.IH[OF c]
    have le: "best_ub s1' \<le> ub (recvd i)"
      using t0_collect_non_increasing[of recvd ranks False "Some (recvd i)" ?s1] c by simp
    have a: "\<forall>j\<in>set (i # ranks). best_ub s' \<le> ub (recvd j)"
      using IH le eq by auto
    have b: "\<exists>j\<in>set (i # ranks). r = Some (recvd j) \<and> best_ub s' = ub (recvd j)"
    proof (cases "\<exists>j\<in>set ranks. ub (recvd j) \<le> best_ub ?s1")
      case True
      with IH eq show ?thesis by auto
    next
      case False
      with IH eq have "r = Some (recvd i)" "best_ub s' = ub (recvd i)" by auto
      then show ?thesis by auto
    qed
    show ?thesis using a b True by auto
  next
    case False
    obtain r1 rs1 s1' where c: "t0_collect recvd ranks False bb s = (r1, rs1, s1')"
      by (cases "t0_collect recvd ranks False bb s") auto
    from Cons.prems False c have eq: "r = r1" "s' = s1'"
      by (simp_all add: timeout_guard_def Let_def)
    note IH = Cons.IH[OF c]
    have le: "best_ub s1' \<le> best_ub s"
      using t0_collect_non_increasing[of recvd ranks False bb s] c by simp
    have a: "\<forall>j\<in>set (i # ranks). best_ub s' \<le> ub (recvd j)"
      using IH le eq False by (auto intro: order_trans)
    show ?thesis using a IH eq False by auto
  qed
qed



lemma t0_drain_idle_best_ub: "best_ub (t0_drain_idle ms s) = best_ub s"
  by (induction ms s rule: t0_drain_idle.induct) simp_all

lemma t0_drain_idle_graph: "graph_to_color (t0_drain_idle ms s) = graph_to_color s"
  by (induction ms s rule: t0_drain_idle.induct) simp_all

lemma t0_drain_idle_solution_found: "solution_found (t0_drain_idle ms s) = solution_found s"
  by (induction ms s rule: t0_drain_idle.induct) simp_all

lemma t0_drain_idle_timeout_signal: "timeout_signal (t0_drain_idle ms s) = timeout_signal s"
  by (induction ms s rule: t0_drain_idle.induct) simp_all

lemmas t0_drain_idle_frame = t0_drain_idle_best_ub t0_drain_idle_graph
  t0_drain_idle_solution_found t0_drain_idle_timeout_signal

lemma select_target_alone_aux:
  assumes "select_target rnd k my_rank p t = Some r"
  shows "\<not> (p = 1 \<and> my_rank = 0 \<and> t = 0)"
proof (rule select_target.raw_induct
    [where P = "\<lambda>rnd k my_rank p t r. \<not> (p = 1 \<and> my_rank = 0 \<and> t = 0)", OF _ assms])
  fix f :: "(nat \<Rightarrow> nat) \<Rightarrow> nat \<Rightarrow> nat \<Rightarrow> nat \<Rightarrow> nat \<Rightarrow> nat option"
  fix rnd k my_rank p target_worker y
  assume IH: "\<And>rnd' k' my_rank' p' t' y'.
        f rnd' k' my_rank' p' t' = Some y' \<Longrightarrow> \<not> (p' = 1 \<and> my_rank' = 0 \<and> t' = 0)"
  assume step: "(if target_worker = my_rank
      then f rnd (Suc k) my_rank p (rnd k mod p)
      else Some target_worker) = Some y"
  show "\<not> (p = 1 \<and> my_rank = 0 \<and> target_worker = 0)"
  proof
    assume a: "p = 1 \<and> my_rank = 0 \<and> target_worker = 0"
    then have "f rnd (Suc k) 0 1 0 = Some y" using step by simp
    from IH[OF this] show False by simp
  qed
qed

lemma select_target_alone: "select_target rnd k 0 (Suc 0) 0 = None"
  using select_target_alone_aux[of rnd k 0 1 0] by (cases "select_target rnd k 0 (Suc 0) 0") auto

lemma request_work_sent:
  "request_work env my_rank p s = Some (got, s') \<Longrightarrow> \<exists>ms. sent s' = sent s @ ms"
  by (auto simp: request_work_def Let_def split: option.splits if_splits)

lemma steal_loop_sent:
  assumes "steal_loop envs flag k my_rank p s = Some r"
  shows "\<exists>ms. sent (snd r) = sent s @ ms"
proof (rule steal_loop.raw_induct
    [where P = "\<lambda>envs flag k my_rank p s r. \<exists>ms. sent (snd r) = sent s @ ms", OF _ assms])
  fix f :: "(nat \<Rightarrow> steal_env) \<Rightarrow> (nat \<Rightarrow> bool) \<Rightarrow> nat \<Rightarrow> nat \<Rightarrow> nat \<Rightarrow> proc \<Rightarrow> (nat \<times> proc) option"
  fix envs flag k my_rank p s r
  assume IH: "\<And>envs' flag' k' my_rank' p' s' r'.
        f envs' flag' k' my_rank' p' s' = Some r' \<Longrightarrow> \<exists>ms. sent (snd r') = sent s' @ ms"
  assume step: "(if flag k then Some (Suc k, s)
      else (case request_work (envs k) my_rank p s of
              None \<Rightarrow> None
            | Some (got, s') \<Rightarrow>
                if got then Some (Suc k, s') else f envs flag (Suc k) my_rank p s')) = Some r"
  show "\<exists>ms. sent (snd r) = sent s @ ms"
  proof (cases "flag k")
    case True
    with step show ?thesis by auto
  next
    case False
    with step obtain got s1 where rw: "request_work (envs k) my_rank p s = Some (got, s1)"
      and rest: "(if got then Some (Suc k, s1) else f envs flag (Suc k) my_rank p s1) = Some r"
      by (auto split: option.splits)
    from request_work_sent[OF rw] obtain ms1 where ms1: "sent s1 = sent s @ ms1" by auto
    show ?thesis
    proof (cases got)
      case True
      with rest ms1 show ?thesis by auto
    next
      case False
      with rest have "f envs flag (Suc k) my_rank p s1 = Some r" by simp
      from IH[OF this] obtain ms2 where "sent (snd r) = sent s1 @ ms2" by auto
      with ms1 show ?thesis by auto
    qed
  qed
qed

lemma thread_3_idle_path_reports:
  assumes "thread_3_idle_path envs flag my_rank p s = Some (c, s')"
  shows "\<exists>ms. sent s' = sent s @ (0, TAG_IDLE, PInt 1) # ms"
proof -
  let ?s1 = "s\<lparr>sent := sent s @ [(0, TAG_IDLE, PInt 1)]\<rparr>"
  from assms obtain k s2 where sl: "steal_loop envs flag 0 my_rank p ?s1 = Some (k, s2)"
    and s': "s' = s2 \<or> s' = s2\<lparr>sent := sent s2 @ [(0, TAG_IDLE, PInt 0)]\<rparr>"
    by (auto simp: thread_3_idle_path_def thread_3_steal_def thread_3_idle_notify_def thread_3_busy_notify_def Let_def split: option.splits if_splits)
  from steal_loop_sent[OF sl] obtain ms where "sent s2 = sent ?s1 @ ms" by auto
  then have "sent s2 = sent s @ (0, TAG_IDLE, PInt 1) # ms" by simp
  with s' show ?thesis by auto
qed

lemma t0_drain_idle_terminate_flag: "terminate_flag (t0_drain_idle ms s) = terminate_flag s"
  by (induction ms s rule: t0_drain_idle.induct) simp_all








section \<open>Properties of the threads\<close>

text \<open>
  What the guards give when no store of another thread lands between a guard's load and
  the store it guards: the worker's stores on a popped branch that is not a declared
  solution nor, in the STANDARD variant, a root branch closed in the first pass, the
  gatherer's store and the stores of the collection at timeout write a
  value that does not exceed the one they replace, and the gatherer's store does not
  exceed the value it loaded however the threads interleave. Nothing is said here of a
  pass that the store of another thread interrupts.
\<close>

lemma guarded_stores_uninterrupted:
  "(ub current \<noteq> expected_chi
      \<and> \<not> (first_iteration s \<and> sint (lb current) = uint (ub current))
      \<longrightarrow> best_ub (snd (standard_process orc my_rank expected_chi current s)) \<le> best_ub s)
   \<and> (ub current \<noteq> expected_chi
      \<longrightarrow> best_ub (snd (balanced_process orc expected_chi current s)) \<le> best_ub s)
   \<and> (rank < length contributions
      \<longrightarrow> best_ub (thread_1_store rank local_best_ub contributions s) \<le> local_best_ub
        \<and> best_ub (thread_1_iteration due completed rank contributions s) \<le> best_ub s)
   \<and> best_ub (snd (snd (t0_collect recvd ranks found best_branch s))) \<le> best_ub s
   \<and> best_ub (t0_check_all_idle (t0_drain_idle idle_msgs s)) = best_ub s
   \<and> best_ub (thread_2_iteration hSerialize request s) = best_ub s"
proof (intro conjI impI)
  assume "ub current \<noteq> expected_chi
      \<and> \<not> (first_iteration s \<and> sint (lb current) = uint (ub current))"
  then show "best_ub (snd (standard_process orc my_rank expected_chi current s)) \<le> best_ub s"
    using standard_process_non_increasing by blast
next
  assume "ub current \<noteq> expected_chi"
  then show "best_ub (snd (balanced_process orc expected_chi current s)) \<le> best_ub s"
    by (rule balanced_process_non_increasing)
next
  assume "rank < length contributions"
  then show "best_ub (thread_1_store rank local_best_ub contributions s) \<le> local_best_ub"
    using thread_1_store_le_local(2)[of rank contributions local_best_ub s] by auto
next
  assume "rank < length contributions"
  then show "best_ub (thread_1_iteration due completed rank contributions s) \<le> best_ub s"
    by (rule thread_1_non_increasing)
next
  show "best_ub (snd (snd (t0_collect recvd ranks found best_branch s))) \<le> best_ub s"
    by (rule t0_collect_non_increasing)
next
  show "best_ub (t0_check_all_idle (t0_drain_idle idle_msgs s)) = best_ub s"
    by (simp add: t0_check_all_idle_def t0_drain_idle_frame)
next
  show "best_ub (thread_2_iteration hSerialize request s) = best_ub s"
    by (simp add: thread_2_iteration_def split: option.splits)
qed

text \<open>
  C1 does not hold of the code: three stores write a value above the one they replace.
  Rank 0 of two processes holds BestUB 5 and expected_chi is 3.

  The gatherer. It loads 5 and contributes it; before the gather completes the worker
  pops a branch with lb = ub = 4 and stores 4; the gather returns 5 and 5, and the
  gatherer stores their minimum, 5, over the 4, where the minimum of BestUB and the
  gathered values is 4.

  The worker. The load of its guard returned 5; a gather that brought 3 from the other
  process then completed and the gatherer stored 3; the worker's store, decided on the 5,
  writes 4 over the 3, in both variants.

  The coordinator. Holding BestUB 2 it receives a declared solution of ub 3 and stores it
  with no comparison.
\<close>

theorem stores_raise_best_ub:
  "best_ub ex_searching = 5
   \<and> standard_process ex_oracles 0 3 ex_bottom ex_searching
       = (Continue, ex_searching\<lparr>best_ub := 4, current_best := Some ex_bottom\<rparr>)
   \<and> balanced_process ex_oracles 3 ex_bottom ex_searching
       = (Continue, ex_searching\<lparr>best_ub := 4, current_best := Some ex_bottom\<rparr>)
   \<and> thread_1_store 0 5 [5, 5] (ex_searching\<lparr>best_ub := 4, current_best := Some ex_bottom\<rparr>)
       = ex_searching\<lparr>best_ub := 5, current_best := Some ex_bottom\<rparr>
   \<and> thread_1_store 0 5 [5, 3] ex_searching = ex_searching\<lparr>best_ub := 3\<rparr>
   \<and> standard_process_at ex_oracles 0 3 ex_loaded ex_bottom (ex_searching\<lparr>best_ub := 3\<rparr>)
       = (Continue, ex_searching\<lparr>best_ub := 4, current_best := Some ex_bottom\<rparr>)
   \<and> balanced_process_at ex_oracles 3 ex_loaded ex_bottom (ex_searching\<lparr>best_ub := 3\<rparr>)
       = (Continue, ex_searching\<lparr>best_ub := 4, current_best := Some ex_bottom\<rparr>)
   \<and> best_ub ex_coordinator = 2
   \<and> t0_receive_solution (Some (3, ex_declared)) ex_coordinator
       = Inr (ex_coordinator\<lparr>graph_to_color := ex_root\<lparr>FullColoring := [0, 1, 2, 3]\<rparr>,
                best_ub := 3, solution_found := 1\<rparr>)"
proof -
  have t3: "standard_process ex_oracles 0 3 ex_bottom ex_searching
       = (Continue, ex_searching\<lparr>best_ub := 4, current_best := Some ex_bottom\<rparr>)"
    "balanced_process ex_oracles 3 ex_bottom ex_searching
       = (Continue, ex_searching\<lparr>best_ub := 4, current_best := Some ex_bottom\<rparr>)"
    "standard_process_at ex_oracles 0 3 ex_loaded ex_bottom (ex_searching\<lparr>best_ub := 3\<rparr>)
       = (Continue, ex_searching\<lparr>best_ub := 4, current_best := Some ex_bottom\<rparr>)"
    "balanced_process_at ex_oracles 3 ex_loaded ex_bottom (ex_searching\<lparr>best_ub := 3\<rparr>)
       = (Continue, ex_searching\<lparr>best_ub := 4, current_best := Some ex_bottom\<rparr>)"
    by (simp_all add: standard_process_def standard_process_at_def balanced_process_def
        balanced_process_at_def uninterrupted_def UpdateCurrentBest_def Let_def
        ex_searching_def ex_bottom_def ex_loaded_def ex_oracles_def)
  have t1: "thread_1_store 0 5 [5, 5] (ex_searching\<lparr>best_ub := 4, current_best := Some ex_bottom\<rparr>)
       = ex_searching\<lparr>best_ub := 5, current_best := Some ex_bottom\<rparr>"
    "thread_1_store 0 5 [5, 3] ex_searching = ex_searching\<lparr>best_ub := 3\<rparr>"
    by (simp_all add: thread_1_store_def Iallgather_def Let_def ex_searching_def)
  have t0: "t0_receive_solution (Some (3, ex_declared)) ex_coordinator
       = Inr (ex_coordinator\<lparr>graph_to_color := ex_root\<lparr>FullColoring := [0, 1, 2, 3]\<rparr>,
                best_ub := 3, solution_found := 1\<rparr>)"
    by (simp add: t0_receive_solution_def ColorInitialGraph_def ex_root_def ex_declared_def
        ex_graph_c_def ex_coordinator_def GetMergedVertices_def Let_def eval_nat_numeral)
  have b: "best_ub ex_searching = 5" "best_ub ex_coordinator = 2"
    by (simp_all add: ex_searching_def ex_coordinator_def)
  from t3 t1 t0 b show ?thesis by simp
qed




text \<open>
  When some received Branch has a ub that does not exceed BestUB: the coordinator has
  received one Branch from each rank 1..P-1, in rank order; the Branch it keeps is one of
  those received, its ub is the smallest among all received and does not exceed BestUB;
  BestUB becomes that ub; and \<^verbatim>\<open>ColorInitialGraph\<close> is called on the kept Branch.
\<close>

lemma timeout_collection_keeps_smallest_ub:
  assumes "\<exists>i\<in>{1..<p}. ub (recvd i) \<le> best_ub s"
  shows "\<exists>i\<in>{1..<p}. \<exists>s'.
           t0_collect recvd [1..<p] False None s = (Some (recvd i), [1..<p], s')
           \<and> (\<forall>j\<in>{1..<p}. ub (recvd i) \<le> ub (recvd j))
           \<and> ub (recvd i) \<le> best_ub s
           \<and> best_ub s' = ub (recvd i)
           \<and> t0_timeout p recvd s =
               (case ColorInitialGraph (graph_to_color s) (recvd i) of
                  Inl e \<Rightarrow> Inl e
                | Inr g \<Rightarrow> Inr (s'\<lparr>graph_to_color := g\<rparr>))"
proof -
  obtain r rs s' where col: "t0_collect recvd [1..<p] False None s = (r, rs, s')"
    by (cases "t0_collect recvd [1..<p] False None s") auto
  note res = t0_collect_result[OF col]
  from assms have "\<exists>i\<in>set [1..<p]. ub (recvd i) \<le> best_ub s" by simp
  with res obtain i where i: "i \<in> set [1..<p]" "r = Some (recvd i)" "best_ub s' = ub (recvd i)"
    by blast
  have rs: "rs = [1..<p]" using t0_collect_ranks[of recvd "[1..<p]" False None s] col by simp
  have least: "\<forall>j\<in>{1..<p}. ub (recvd i) \<le> ub (recvd j)" using res i by simp
  have le: "ub (recvd i) \<le> best_ub s"
    using t0_collect_non_increasing[of recvd "[1..<p]" False None s] col i by simp
  have g: "graph_to_color s' = graph_to_color s"
    using t0_collect_frame[of recvd "[1..<p]" False None s] col by simp
  have "t0_timeout p recvd s =
               (case ColorInitialGraph (graph_to_color s) (recvd i) of
                  Inl e \<Rightarrow> Inl e
                | Inr g \<Rightarrow> Inr (s'\<lparr>graph_to_color := g\<rparr>))"
    using col i g by (simp add: t0_timeout_def)
  with col i rs least le show ?thesis
    by (intro bexI[of _ i] exI[of _ s']) simp_all
qed

text \<open>
  With three processes and BestUB 5, rank 1 sends an incumbent of ub 3 and rank 2 one of
  ub 2 whose graph has vertex 3 merged into vertex 1 and the colors 2 and 1 on vertices 1
  and 2: the incumbent of rank 2 is kept and the root graph is colored 2, 1, 2.
\<close>

lemma timeout_collection_example:
  "t0_timeout 3 ex_recvd3 ex_worker
     = Inr (ex_worker\<lparr>best_ub := 2, graph_to_color := ex_root\<lparr>FullColoring := [0, 2, 1, 2]\<rparr>\<rparr>)"
proof -
  have e: "t0_collect ex_recvd3 [1..<3] False None ex_worker
     = (Some ex_worker_best, [1, 2], ex_worker\<lparr>best_ub := 2\<rparr>)"
    by (simp add: upt_rec timeout_guard_def Let_def ex_recvd3_def ex_declared_def
        ex_worker_best_def ex_worker_def)
  have c: "ColorInitialGraph ex_root ex_worker_best = Inr (ex_root\<lparr>FullColoring := [0, 2, 1, 2]\<rparr>)"
    by (simp add: ColorInitialGraph_def ex_root_def ex_worker_best_def ex_graph_b_def
        GetMergedVertices_def eval_nat_numeral)
  have g: "graph_to_color ex_worker = ex_root" by (simp add: ex_worker_def)
  show ?thesis using e c g by (simp add: t0_timeout_def)
qed

text \<open>
  C3 does not hold of the code on every timeout: when no received Branch has a ub within
  BestUB, nothing is kept and no coloring is reconstructed. With one process no Branch is
  collected at all. With two processes, rank 0 holding BestUB 2 and the worker sending an
  incumbent of ub 3, the one Branch collected is not kept. In both cases \<^verbatim>\<open>best_branch\<close> is
  still the default-constructed Branch, which has no graph, when \<^verbatim>\<open>ColorInitialGraph\<close> is
  called on it, and the coordinator's pass does not complete.
\<close>

theorem timeout_without_kept_branch_has_no_graph:
  "t0_timeout 1 recvd s = Inl NullGraph
   \<and> best_ub ex_coordinator = 2
   \<and> ub (ex_recvd3 1) = 3
   \<and> t0_collect ex_recvd3 [1..<2] False None ex_coordinator = (None, [1], ex_coordinator)
   \<and> t0_timeout 2 ex_recvd3 ex_coordinator = Inl NullGraph
   \<and> thread_0_iteration 2 True None [] ex_recvd3 ex_coordinator = Inl NullGraph"
  by (simp add: t0_timeout_def thread_0_iteration_def t0_receive_solution_def
      t0_check_timeout_def t0_check_all_idle_def timeout_guard_def Let_def upt_rec
      ex_recvd3_def ex_declared_def ex_coordinator_def)

text \<open>
  The two timeouts at rank 0 with BestUB 2: alone, and with one worker whose incumbent has
  ub 3, which the guard of the collection turns down.
\<close>

theorem timeout_without_kept_branch_has_no_graph_witness:
  "t0_timeout 1 ex_recvd3 ex_coordinator = Inl NullGraph
   \<and> \<not> timeout_guard False None (ex_recvd3 1) ex_coordinator
   \<and> t0_timeout 2 ex_recvd3 ex_coordinator = Inl NullGraph"
  using timeout_without_kept_branch_has_no_graph [of ex_recvd3 ex_coordinator]
  by (simp add: timeout_guard_def)

text \<open>
  C4 fails in the BALANCED variant. A worker pops a branch whose ub equals expected_chi
  (2) while another branch is queued. Both variants set BestUB to that ub and send the ub
  and then the serialized Branch to rank 0 on TAG_SOLUTION_FOUND; STANDARD leaves the
  loop, BALANCED goes on to the next pass, where the other branch is popped.
\<close>

theorem balanced_short_circuit_stays_in_loop:
  "thread_3_pop ex_worker = (Some ex_solution, ex_worker\<lparr>queue := [ex_declared]\<rparr>)
   \<and> standard_process ex_oracles 0 2 ex_solution (ex_worker\<lparr>queue := [ex_declared]\<rparr>)
       = (Break, ex_worker\<lparr>queue := [ex_declared], best_ub := 2,
            sent := [(0, TAG_SOLUTION_FOUND, PUShort 2), (0, TAG_SOLUTION_FOUND, PInt 10),
                     (0, TAG_SOLUTION_FOUND, PBytes [2, 0, 0, 0, 2, 0, 2, 0, 0, 0])]\<rparr>)
   \<and> balanced_process ex_oracles 2 ex_solution (ex_worker\<lparr>queue := [ex_declared]\<rparr>)
       = (Continue, ex_worker\<lparr>queue := [ex_declared], best_ub := 2,
            sent := [(0, TAG_SOLUTION_FOUND, PUShort 2), (0, TAG_SOLUTION_FOUND, PInt 10),
                     (0, TAG_SOLUTION_FOUND, PBytes [2, 0, 0, 0, 2, 0, 2, 0, 0, 0])]\<rparr>)
   \<and> fst (thread_3_pop (snd (balanced_process ex_oracles 2 ex_solution
                                 (ex_worker\<lparr>queue := [ex_declared]\<rparr>))))
       = Some ex_declared"
  by (simp add: thread_3_pop_def queue_top_def queue_pop_def Branch_less_def
       balanced_process_def balanced_process_at_def standard_process_def standard_process_at_def uninterrupted_def sendBranch_def Let_def
       serialize_def memcpy_def bytes_of_int_def bytes_of_ushort_def
       ex_solution_def ex_declared_def ex_oracles_def ex_worker_def)




text \<open>
  C7: on a work request the employer donates if and only if the queue holds more than
  one Branch. When it donates, the Branch is the top of the queue, of the greatest depth
  in it, and is removed from the queue; the response 1 on TAG_WORK_RESPONSE is sent
  first, then the Branch (its size, then its bytes) on TAG_WORK_STEALING. Otherwise the
  response 0 is sent and the queue is unchanged. Without a request nothing happens.
\<close>

theorem employer_donates:
  "(1 < length (queue s) \<longrightarrow>
      (\<exists>branch. queue_top (queue s) = Some branch
         \<and> branch \<in> set (queue s)
         \<and> (\<forall>b\<in>set (queue s). sint (depth b) \<le> sint (depth branch))
         \<and> mset (queue s) = add_mset branch (mset (queue (thread_2_iteration hSerialize (Some d) s)))
         \<and> sent (thread_2_iteration hSerialize (Some d) s) =
             sent s @ [(d, TAG_WORK_RESPONSE, PInt 1),
                       (d, TAG_WORK_STEALING, PInt (of_nat (length (serialize hSerialize branch)))),
                       (d, TAG_WORK_STEALING, PBytes (serialize hSerialize branch))]))
   \<and> (\<not> 1 < length (queue s) \<longrightarrow>
        queue (thread_2_iteration hSerialize (Some d) s) = queue s
        \<and> sent (thread_2_iteration hSerialize (Some d) s) =
            sent s @ [(d, TAG_WORK_RESPONSE, PInt 0)])
   \<and> thread_2_iteration hSerialize None s = s"
proof (intro conjI impI)
  assume len: "1 < length (queue s)"
  then have "queue s \<noteq> []" by auto
  then obtain branch where top: "queue_top (queue s) = Some branch"
    using queue_top_None[of "queue s"] by (cases "queue_top (queue s)") auto
  show "\<exists>branch. queue_top (queue s) = Some branch
         \<and> branch \<in> set (queue s)
         \<and> (\<forall>b\<in>set (queue s). sint (depth b) \<le> sint (depth branch))
         \<and> mset (queue s) = add_mset branch (mset (queue (thread_2_iteration hSerialize (Some d) s)))
         \<and> sent (thread_2_iteration hSerialize (Some d) s) =
             sent s @ [(d, TAG_WORK_RESPONSE, PInt 1),
                       (d, TAG_WORK_STEALING, PInt (of_nat (length (serialize hSerialize branch)))),
                       (d, TAG_WORK_STEALING, PBytes (serialize hSerialize branch))]"
    using top len queue_top_Some[OF top] queue_pop_mset[OF top]
    by (intro exI[of _ branch]) (simp add: employer_serve)
next
  assume "\<not> 1 < length (queue s)"
  then show "queue (thread_2_iteration hSerialize (Some d) s) = queue s"
    by (simp add: employer_serve split: option.splits)
next
  assume "\<not> 1 < length (queue s)"
  then show "sent (thread_2_iteration hSerialize (Some d) s) =
            sent s @ [(d, TAG_WORK_RESPONSE, PInt 0)]"
    by (simp add: employer_serve split: option.splits)
next
  show "thread_2_iteration hSerialize None s = s" by (simp add: thread_2_iteration_def)
qed

text \<open>
  C7 at a concrete input: a queue of two branches, of depth 1 and 2; the one of depth 2
  goes to the requesting rank 1.
\<close>

theorem employer_donates_witness:
  "queue (thread_2_iteration (\<lambda>g. []) (Some 1) ex_worker) = [ex_declared]
   \<and> sent (thread_2_iteration (\<lambda>g. []) (Some 1) ex_worker)
       = [(1, TAG_WORK_RESPONSE, PInt 1), (1, TAG_WORK_STEALING, PInt 10),
          (1, TAG_WORK_STEALING, PBytes [2, 0, 0, 0, 2, 0, 2, 0, 0, 0])]"
proof -
  have top: "queue_top (queue ex_worker) = Some ex_solution"
    by (simp add: queue_top_def Branch_less_def ex_worker_def ex_solution_def ex_declared_def)
  have pop: "queue (thread_2_iteration (\<lambda>g. []) (Some 1) ex_worker) = [ex_declared]"
    by (simp add: thread_2_iteration_def queue_top_def queue_pop_def Branch_less_def
        ex_worker_def ex_solution_def ex_declared_def)
  have ser: "serialize (\<lambda>g. []) ex_solution = [2, 0, 0, 0, 2, 0, 2, 0, 0, 0]"
    by (simp add: serialize_def memcpy_def bytes_of_int_def bytes_of_ushort_def
        ex_solution_def Let_def)
  have len: "1 < length (queue ex_worker)" by (simp add: ex_worker_def)
  show ?thesis
    using employer_donates [of ex_worker "\<lambda>g. []" 1] top pop ser len
    by (simp add: ex_worker_def)
qed

text \<open>
  The pass on a branch for which ChooseVertices returns u = -1 or v = -1, when no store
  of another thread interrupts it (the branch is not a declared solution, its lb differs
  from its ub and is below BestUB): both variants go on to the next pass without pushing
  anything; BestUB becomes the minimum of BestUB and GetNumVertices(), and on improvement
  CurrentBest becomes the popped branch.
\<close>

lemma no_pair_uninterrupted:
  assumes "ub current \<noteq> expected_chi"
    and "sint (lb current) \<noteq> uint (ub current)"
    and "sint (lb current) < uint (best_ub s)"
    and "ChooseVertices orc (history current) = (u, v)"
    and "u = - 1 \<or> v = - 1"
  shows "standard_process orc my_rank expected_chi current s =
          (Continue,
           if int (NumVertices (history current)) < uint (best_ub s)
           then s\<lparr>best_ub := of_nat (NumVertices (history current)),
                  current_best := Some current\<rparr>
           else s)
       \<and> balanced_process orc expected_chi current s
           = standard_process orc my_rank expected_chi current s
       \<and> uint (best_ub (snd (standard_process orc my_rank expected_chi current s)))
           = min (uint (best_ub s)) (int (NumVertices (history current)))
       \<and> queue (snd (standard_process orc my_rank expected_chi current s)) = queue s"
proof -
  have st: "standard_process orc my_rank expected_chi current s =
          (Continue,
           if int (NumVertices (history current)) < uint (best_ub s)
           then s\<lparr>best_ub := of_nat (NumVertices (history current)),
                  current_best := Some current\<rparr>
           else s)"
    using assms by (rule standard_complete_graph)
  have ba: "balanced_process orc expected_chi current s
           = standard_process orc my_rank expected_chi current s"
    using balanced_complete_graph[OF assms] st by simp
  have mn: "uint (best_ub (snd (standard_process orc my_rank expected_chi current s)))
           = min (uint (best_ub s)) (int (NumVertices (history current)))"
    using st by (simp add: of_nat_le_ushort(2))
  have qu: "queue (snd (standard_process orc my_rank expected_chi current s)) = queue s"
    using st by simp
  from st ba mn qu show ?thesis by simp
qed

text \<open>
  When moreover the ub of the popped branch is the number of vertices of its graph, as
  for a properly colored complete graph, the branch recorded on improvement has
  GetNumVertices() as its ub.
\<close>

lemma no_pair_uninterrupted_complete:
  assumes "ub current \<noteq> expected_chi"
    and "sint (lb current) \<noteq> uint (ub current)"
    and "sint (lb current) < uint (best_ub s)"
    and "ChooseVertices orc (history current) = (u, v)"
    and "u = - 1 \<or> v = - 1"
    and "uint (ub current) = int (NumVertices (history current))"
    and "int (NumVertices (history current)) < uint (best_ub s)"
  shows "best_ub (snd (standard_process orc my_rank expected_chi current s))
           = of_nat (NumVertices (history current))
       \<and> map_option ub (current_best (snd (standard_process orc my_rank expected_chi current s)))
           = Some (of_nat (NumVertices (history current)))"
proof -
  have "of_nat (NumVertices (history current)) = (word_of_int (uint (ub current)) :: ushort)"
    using assms(6) by simp
  then have "ub current = of_nat (NumVertices (history current))" by simp
  then show ?thesis
    using standard_complete_graph[OF assms(1-5), of my_rank] assms(7) by simp
qed

text \<open>
  C8 does not hold of the code when the gatherer stores between the worker's guard and
  the worker's store. Rank 0 of two processes holds BestUB 5 and expected_chi is 3. Its
  worker pops a branch with lb 3 and ub 4 whose graph has 4 vertices and no pair to
  branch on. The loads of the pass return 5, so the guard on GetNumVertices() passes; a
  gather that brought 3 from the other process completes and the gatherer stores 3; the
  worker's store then writes 4 over it. BestUB becomes 4, where the minimum of BestUB and
  GetNumVertices() is 3, in both variants; the branch is recorded as CurrentBest with
  BestUB 3 in place.
\<close>

theorem stale_no_pair_guard_raises_best_ub:
  "best_ub ex_searching = 5
   \<and> NumVertices (history ex_complete) = 4
   \<and> ub ex_complete = 4
   \<and> ChooseVertices ex_oracles (history ex_complete) = (- 1, - 1)
   \<and> thread_1_store 0 5 [5, 3] ex_searching = ex_searching\<lparr>best_ub := 3\<rparr>
   \<and> standard_process_at ex_oracles 0 3 ex_loaded ex_complete (ex_searching\<lparr>best_ub := 3\<rparr>)
       = (Continue, ex_searching\<lparr>best_ub := 4, current_best := Some ex_complete\<rparr>)
   \<and> balanced_process_at ex_oracles 3 ex_loaded ex_complete (ex_searching\<lparr>best_ub := 3\<rparr>)
       = (Continue, ex_searching\<lparr>best_ub := 4, current_best := Some ex_complete\<rparr>)"
proof -
  have t1: "thread_1_store 0 5 [5, 3] ex_searching = ex_searching\<lparr>best_ub := 3\<rparr>"
    by (simp add: thread_1_store_def Iallgather_def Let_def ex_searching_def)
  have t3: "standard_process_at ex_oracles 0 3 ex_loaded ex_complete (ex_searching\<lparr>best_ub := 3\<rparr>)
       = (Continue, ex_searching\<lparr>best_ub := 4, current_best := Some ex_complete\<rparr>)"
    "balanced_process_at ex_oracles 3 ex_loaded ex_complete (ex_searching\<lparr>best_ub := 3\<rparr>)
       = (Continue, ex_searching\<lparr>best_ub := 4, current_best := Some ex_complete\<rparr>)"
    by (simp_all add: standard_process_at_def balanced_process_at_def UpdateCurrentBest_def
        Let_def ex_searching_def ex_loaded_def ex_oracles_def ex_complete_def ex_graph_k4_def)
  have b: "best_ub ex_searching = 5" "NumVertices (history ex_complete) = 4"
    "ub ex_complete = 4" "ChooseVertices ex_oracles (history ex_complete) = (- 1, - 1)"
    by (simp_all add: ex_searching_def ex_complete_def ex_graph_k4_def ex_oracles_def)
  from t1 t3 b show ?thesis by simp
qed

text \<open>
  C9 fails: with one process (rank 0 of 1) \<^verbatim>\<open>request_work\<close> does not return, whatever the
  random numbers and the state, because every draw modulo 1 is the caller's own rank;
  the worker's idle path then does not return either unless terminate_flag is already
  set at its first load.
\<close>

theorem request_work_alone_never_returns:
  "request_work env 0 1 s = None
   \<and> thread_3_idle_path envs flag 0 1 s
       = (if flag 0 \<and> flag 1 then Some (Break, s\<lparr>sent := sent s @ [(0, TAG_IDLE, PInt 1)]\<rparr>)
          else if flag 0
          then Some (Continue, s\<lparr>sent := sent s @ [(0, TAG_IDLE, PInt 1), (0, TAG_IDLE, PInt 0)]\<rparr>)
          else None)"
proof -
  have rw: "\<And>env s. request_work env 0 (Suc 0) s = None"
    by (simp add: request_work_def select_target_alone)
  have sl: "\<And>s. steal_loop envs flag 0 0 (Suc 0) s = (if flag 0 then Some (Suc 0, s) else None)"
    by (subst steal_loop.simps) (simp add: rw)
  show ?thesis
    using rw sl by (simp add: thread_3_idle_path_def thread_3_steal_def thread_3_idle_notify_def thread_3_busy_notify_def Let_def)
qed

end
